theory Spec2Isabelle
  imports Main
begin

section \<open>The RAT24F lexer of \<^verbatim>\<open>lexer.py\<close>\<close>

text \<open>
  The module scans a source text into a list of \<^verbatim>\<open>(token, lexeme)\<close> pairs. Its
  calls to \<^verbatim>\<open>logging\<close> only write a log file and are left out; everything else
  of the functions below is translated statement by statement.

  A Python \<^verbatim>\<open>str\<close> is a sequence of code points. It is modelled as a \<open>string\<close>
  whose characters are the code points U+0000 to U+00FF, so \<open>length\<close> counts what
  \<^verbatim>\<open>len\<close> counts. A one-character \<^verbatim>\<open>str\<close> that the code tests with a \<^verbatim>\<open>str\<close>
  method is a \<open>char\<close>; where the code compares it with the entries of a table or stores
  it as a lexeme it is the one-element string \<open>[c]\<close>.
\<close>

subsection \<open>Tables\<close>

definition keywords_tbl :: "string list" where
  "keywords_tbl = [''integer'', ''if'', ''else'', ''fi'', ''while'', ''return'', ''get'', ''put'']"

definition operators :: "string list" where
  "operators = [''+'', ''-'', ''*'', ''/'', ''='', ''<'', ''>'', ''<='', ''>='', ''=='', ''!='']"

definition separators :: "string list" where
  "separators = [''('', '')'', ''{'', ''}'', '','', '';'']"

subsection \<open>Python's character classes on U+0000 to U+00FF\<close>

text \<open>
  \<^verbatim>\<open>str.isspace\<close>: the characters of bidirectional type WS, B or S and of category Zs.
\<close>

definition isspace :: "char \<Rightarrow> bool" where
  "isspace c =
     (let n = (of_char c :: nat)
      in (9 \<le> n \<and> n \<le> 13) \<or> (28 \<le> n \<and> n \<le> 32) \<or> n = 133 \<or> n = 160)"

text \<open>\<^verbatim>\<open>str.isalpha\<close>: the characters of a letter category.\<close>

definition isalpha :: "char \<Rightarrow> bool" where
  "isalpha c =
     (let n = (of_char c :: nat)
      in (65 \<le> n \<and> n \<le> 90) \<or> (97 \<le> n \<and> n \<le> 122) \<or> n = 170 \<or> n = 181 \<or> n = 186
         \<or> (192 \<le> n \<and> n \<le> 214) \<or> (216 \<le> n \<and> n \<le> 246) \<or> (248 \<le> n \<and> n \<le> 255))"

text \<open>\<^verbatim>\<open>str.isdigit\<close>: the decimal digits and the superscripts one, two and three.\<close>

definition isdigit :: "char \<Rightarrow> bool" where
  "isdigit c =
     (let n = (of_char c :: nat)
      in (48 \<le> n \<and> n \<le> 57) \<or> n = 178 \<or> n = 179 \<or> n = 185)"

text \<open>
  \<^verbatim>\<open>str.isalnum\<close>: letters, digits and the other numeric characters (the three
  vulgar fractions of this range).
\<close>

definition isalnum :: "char \<Rightarrow> bool" where
  "isalnum c =
     (let n = (of_char c :: nat)
      in isalpha c \<or> isdigit c \<or> (188 \<le> n \<and> n \<le> 190))"

definition is_letter :: "char \<Rightarrow> bool" where
  "is_letter char = isalpha char"

definition is_digit :: "char \<Rightarrow> bool" where
  "is_digit char = isdigit char"

subsection \<open>Slices, search and errors\<close>

text \<open>\<^verbatim>\<open>s[i:j]\<close> for \<open>0 \<le> i\<close>: clipped at the end of the text, never an error.\<close>

definition slice :: "string \<Rightarrow> nat \<Rightarrow> nat \<Rightarrow> string" where
  "slice s i j = take (j - i) (drop i s)"

text \<open>
  \<^verbatim>\<open>s.find(sub, start)\<close>: the lowest index at or after \<open>start\<close> where \<open>sub\<close>
  occurs in \<open>s\<close>. Python's result \<^verbatim>\<open>-1\<close> for no occurrence is \<open>None\<close> here.
\<close>

definition str_find :: "string \<Rightarrow> string \<Rightarrow> nat \<Rightarrow> nat option" where
  "str_find s sub start =
     find (\<lambda>i. i + length sub \<le> length s \<and> slice s i (i + length sub) = sub)
       [start ..< Suc (length s)]"

text \<open>
  The exceptions the module can raise: the \<^verbatim>\<open>ValueError\<close> of \<^verbatim>\<open>handle_comment\<close>,
  with its message, and the \<^verbatim>\<open>IndexError\<close> of an index past the end of the text.
\<close>

datatype error = ValueError string | IndexError

type_synonym token = "string \<times> string"

subsection \<open>The recognisers\<close>

definition handle_comment :: "string \<Rightarrow> nat \<Rightarrow> error + nat" where
  "handle_comment source_code position =
     (case str_find source_code ''*]'' position of
        None \<Rightarrow> Inl (ValueError ''Unterminated comment block'')
      | Some end_pos \<Rightarrow> Inr (end_pos + 2))"

text \<open>The \<^verbatim>\<open>while\<close> loop of \<^verbatim>\<open>get_identifier\<close>, on its two variables.\<close>

function get_identifier_loop :: "string \<Rightarrow> nat \<Rightarrow> string \<Rightarrow> string" where
  "get_identifier_loop source_code position lexeme =
     (if position < length source_code
         \<and> (isalnum (source_code ! position) \<or> source_code ! position = CHR ''_'')
      then get_identifier_loop source_code (position + 1) (lexeme @ [source_code ! position])
      else lexeme)"
  by pat_completeness auto
termination
  by (relation "measure (\<lambda>(source_code, position, lexeme). length source_code - position)") auto

declare get_identifier_loop.simps [simp del]

definition get_identifier :: "string \<Rightarrow> nat \<Rightarrow> string" where
  "get_identifier source_code position = get_identifier_loop source_code position ''''"

text \<open>
  The two \<^verbatim>\<open>while\<close> loops of \<^verbatim>\<open>get_number\<close> have the same text; the function
  returns their two variables.
\<close>

function get_number_loop :: "string \<Rightarrow> nat \<Rightarrow> string \<Rightarrow> nat \<times> string" where
  "get_number_loop source_code position lexeme =
     (if position < length source_code \<and> isdigit (source_code ! position)
      then get_number_loop source_code (position + 1) (lexeme @ [source_code ! position])
      else (position, lexeme))"
  by pat_completeness auto
termination
  by (relation "measure (\<lambda>(source_code, position, lexeme). length source_code - position)") auto

declare get_number_loop.simps [simp del]

definition get_number :: "string \<Rightarrow> nat \<Rightarrow> string \<times> bool" where
  "get_number source_code position =
     (case get_number_loop source_code position '''' of (position1, lexeme1) \<Rightarrow>
        if position1 < length source_code \<and> source_code ! position1 = CHR ''.''
        then (case get_number_loop source_code (position1 + 1) (lexeme1 @ ''.'') of
                (position2, lexeme2) \<Rightarrow> (lexeme2, True))
        else (lexeme1, False))"

text \<open>
  \<^verbatim>\<open>get_operator\<close> indexes the text after the slice test, which raises past the end
  of the text.
\<close>

definition get_operator :: "string \<Rightarrow> nat \<Rightarrow> error + string" where
  "get_operator source_code position =
     (if slice source_code position (position + 2) \<in> set operators
      then Inr (slice source_code position (position + 2))
      else if \<not> position < length source_code then Inl IndexError
      else if [source_code ! position] \<in> set operators then Inr [source_code ! position]
      else Inr '''')"

subsection \<open>The scanning loop\<close>

text \<open>
  One iteration of the \<^verbatim>\<open>while\<close> loop of \<^verbatim>\<open>lexer\<close>, entered with
  \<open>position < length source_code\<close>: the new position and token list, or the exception.
  The test for a comment reads \<^verbatim>\<open>source_code[position+1]\<close> whenever the character is
  \<^verbatim>\<open>[\<close>. The operator test reads \<^verbatim>\<open>op[0]\<close> of the entries of \<^verbatim>\<open>operators\<close>,
  none of which is empty. When no \<^verbatim>\<open>if\<close> applies the iteration changes nothing.
\<close>

definition lexer_body :: "string \<Rightarrow> nat \<Rightarrow> token list \<Rightarrow> error + (nat \<times> token list)" where
  "lexer_body source_code position tokens =
     (let char = source_code ! position in
      if isspace char then Inr (position + 1, tokens)
      else if char = CHR ''['' \<and> \<not> position + 1 < length source_code then Inl IndexError
      else if char = CHR ''['' \<and> source_code ! (position + 1) = CHR ''*'' then
        (case handle_comment source_code position of
           Inl e \<Rightarrow> Inl e
         | Inr position' \<Rightarrow> Inr (position', tokens))
      else if is_letter char then
        (let lexeme = get_identifier source_code position in
         if lexeme \<in> set keywords_tbl
         then Inr (position + length lexeme, tokens @ [(''keyword'', lexeme)])
         else Inr (position + length lexeme, tokens @ [(''identifier'', lexeme)]))
      else if is_digit char then
        (case get_number source_code position of (lexeme, is_real) \<Rightarrow>
           if is_real
           then Inr (position + length lexeme, tokens @ [(''real'', lexeme)])
           else Inr (position + length lexeme, tokens @ [(''integer'', lexeme)]))
      else if list_ex (\<lambda>op. char = op ! 0) operators then
        (case get_operator source_code position of
           Inl e \<Rightarrow> Inl e
         | Inr lexeme \<Rightarrow> Inr (position + length lexeme, tokens @ [(''operator'', lexeme)]))
      else if [char] \<in> set separators then Inr (position + 1, tokens @ [(''separator'', [char])])
      else Inr (position, tokens))"

text \<open>
  The loop. It need not end, so its result is an option: \<open>None\<close> when the loop runs for
  ever, \<open>Some (Inl e)\<close> when it raises \<open>e\<close>, \<open>Some (Inr tokens)\<close> when it returns.
\<close>

partial_function (option) lexer_loop ::
  "string \<Rightarrow> nat \<Rightarrow> token list \<Rightarrow> (error + token list) option" where
  "lexer_loop source_code position tokens =
     (if position < length source_code then
        (case lexer_body source_code position tokens of
           Inl e \<Rightarrow> Some (Inl e)
         | Inr (position', tokens') \<Rightarrow> lexer_loop source_code position' tokens')
      else Some (Inr tokens))"

declare lexer_loop.simps [code]

definition lexer :: "string \<Rightarrow> (error + token list) option" where
  "lexer source_code = lexer_loop source_code 0 []"

section \<open>Properties\<close>

subsection \<open>The loops of the recognisers in closed form\<close>

lemma get_identifier_loop_takeWhile:
  "get_identifier_loop source_code position lexeme =
     lexeme @ takeWhile (\<lambda>c. isalnum c \<or> c = CHR ''_'') (drop position source_code)"
proof (induction source_code position lexeme rule: get_identifier_loop.induct)
  case (1 source_code position lexeme)
  show ?case
  proof (cases "position < length source_code")
    case True
    then have d: "drop position source_code
        = source_code ! position # drop (Suc position) source_code"
      by (simp add: Cons_nth_drop_Suc)
    show ?thesis
      using True "1.IH" by (subst get_identifier_loop.simps) (simp add: d)
  next
    case False
    then show ?thesis
      by (subst get_identifier_loop.simps) simp
  qed
qed

lemma get_identifier_takeWhile:
  "get_identifier source_code position =
     takeWhile (\<lambda>c. isalnum c \<or> c = CHR ''_'') (drop position source_code)"
  by (simp add: get_identifier_def get_identifier_loop_takeWhile)

lemma get_number_loop_takeWhile:
  "get_number_loop source_code position lexeme =
     (position + length (takeWhile isdigit (drop position source_code)),
      lexeme @ takeWhile isdigit (drop position source_code))"
proof (induction source_code position lexeme rule: get_number_loop.induct)
  case (1 source_code position lexeme)
  show ?case
  proof (cases "position < length source_code")
    case True
    then have d: "drop position source_code
        = source_code ! position # drop (Suc position) source_code"
      by (simp add: Cons_nth_drop_Suc)
    show ?thesis
      using True "1.IH" by (subst get_number_loop.simps) (simp add: d)
  next
    case False
    then show ?thesis
      by (subst get_number_loop.simps) simp
  qed
qed

subsection \<open>An iteration that does not advance\<close>

text \<open>
  When an iteration leaves the position where it is, whatever the token list, the loop
  never ends: it has no other way out than the position reaching the end of the text.
\<close>

lemma lexer_loop_stuck:
  assumes guard: "position < length source_code"
    and stuck: "\<And>tokens. \<exists>tokens'. lexer_body source_code position tokens = Inr (position, tokens')"
  shows "lexer_loop source_code position tokens = None"
proof (rule ccontr)
  assume "lexer_loop source_code position tokens \<noteq> None"
  then obtain y where run: "lexer_loop source_code position tokens = Some y"
    by auto
  have "\<not> (source_code = source_code \<and> position = position)"
  proof (rule lexer_loop.raw_induct
      [where P = "\<lambda>s p t y. \<not> (s = source_code \<and> p = position)", OF _ run])
    fix f s p t r
    assume IH: "\<And>s' p' t' r'. f s' p' t' = Some r' \<Longrightarrow> \<not> (s' = source_code \<and> p' = position)"
      and body: "(if p < length s
           then case lexer_body s p t of
                  Inl e \<Rightarrow> Some (Inl e)
                | Inr (position', tokens') \<Rightarrow> f s position' tokens'
           else Some (Inr t)) = Some r"
    show "\<not> (s = source_code \<and> p = position)"
    proof
      assume here: "s = source_code \<and> p = position"
      obtain t' where "lexer_body source_code position t = Inr (position, t')"
        using stuck by blast
      with body here guard have "f source_code position t' = Some r"
        by simp
      with IH show False
        by blast
    qed
  qed
  then show False
    by simp
qed

subsection \<open>Texts on which the scan does not do what is asked of it\<close>

text \<open>
  C1. A text without comment markers should make the scan end and return the tokens
  whose lexemes, put together, are the text without its whitespace. The one-character
  text \<^verbatim>\<open>@\<close> has no comment marker, and no \<^verbatim>\<open>if\<close> of the loop applies to it: the
  position stays at 0 and the scan never returns.
\<close>

theorem lexer_unclassified_character_diverges: "lexer ''@'' = None"
  unfolding lexer_def
  by (rule lexer_loop_stuck)
    (simp_all add: lexer_body_def isspace_def isalpha_def isdigit_def is_letter_def
      is_digit_def operators_def separators_def slice_def)

text \<open>
  C2. Every emitted token should have a lexeme that is not empty. On the text \<^verbatim>\<open>!\<close>
  the operator test succeeds, since \<^verbatim>\<open>!=\<close> begins with \<^verbatim>\<open>!\<close>, but
  \<^verbatim>\<open>get_operator\<close> finds no operator and returns the empty string: the first iteration
  appends an operator token with the empty lexeme and leaves the position at 0, and so
  does every later one.
\<close>

theorem lexer_bang_emits_empty_lexeme:
  "lexer_body ''!'' 0 [] = Inr (0, [(''operator'', '''')]) \<and> lexer ''!'' = None"
proof
  show "lexer_body ''!'' 0 [] = Inr (0, [(''operator'', '''')])"
    by (simp add: lexer_body_def isspace_def isalpha_def isdigit_def is_letter_def
        is_digit_def operators_def slice_def get_operator_def)
  show "lexer ''!'' = None"
    unfolding lexer_def
    by (rule lexer_loop_stuck)
      (simp_all add: lexer_body_def isspace_def isalpha_def isdigit_def is_letter_def
        is_digit_def operators_def slice_def get_operator_def)
qed

text \<open>
  C3. The only failure of the scan should be the unterminated comment. On the text
  \<^verbatim>\<open>[\<close> the comment test reads the character after the bracket, past the end of the
  text, and the scan raises \<^verbatim>\<open>IndexError\<close>.
\<close>

theorem lexer_trailing_bracket_raises_IndexError: "lexer ''['' = Some (Inl IndexError)"
  by code_simp

text \<open>
  C4. The closing marker of a comment should be looked for after the opening marker, so
  that \<^verbatim>\<open>[*]\<close> is an unterminated comment. \<^verbatim>\<open>handle_comment\<close> searches from the
  position of the bracket, finds \<^verbatim>\<open>*]\<close> at index 1, where it shares its star with the
  opening marker, and the scan returns the empty token list.
\<close>

theorem lexer_overlapping_comment_markers:
  "handle_comment ''[*]'' 0 = Inr 3 \<and> lexer ''[*]'' = Some (Inr [])"
  by code_simp

subsection \<open>Facts about the helpers\<close>

lemma find_in_set: "find P xs = Some x \<Longrightarrow> x \<in> set xs"
  by (induction xs) (auto split: if_splits)

lemma str_find_ge: "str_find s sub start = Some i \<Longrightarrow> start \<le> i"
proof -
  assume "str_find s sub start = Some i"
  then have "i \<in> set [start ..< Suc (length s)]"
    unfolding str_find_def by (rule find_in_set)
  then show ?thesis
    by (simp only: set_upt atLeastLessThan_iff)
qed

lemma handle_comment_advances:
  "handle_comment source_code position = Inr position' \<Longrightarrow> position < position'"
  by (auto simp add: handle_comment_def split: option.splits dest: str_find_ge)

lemma nth_of_take_drop:
  "take (Suc n) (drop position source_code) = c # cs
     \<Longrightarrow> position < length source_code \<and> source_code ! position = c"
proof -
  assume h: "take (Suc n) (drop position source_code) = c # cs"
  then have "drop position source_code \<noteq> []" by auto
  then have lt: "position < length source_code" by simp
  then have "drop position source_code = source_code ! position # drop (Suc position) source_code"
    by (simp add: Cons_nth_drop_Suc)
  with h lt show ?thesis by simp
qed

lemma char_classes:
  "isalpha c \<Longrightarrow> \<not> isspace c"
  "isdigit c \<Longrightarrow> \<not> isspace c"
  "isdigit c \<Longrightarrow> \<not> isalpha c"
  "isalpha c \<Longrightarrow> c \<noteq> CHR ''[''"
  "isdigit c \<Longrightarrow> c \<noteq> CHR ''[''"
  "isalpha c \<Longrightarrow> c \<noteq> CHR ''.''"
  by (auto simp add: isspace_def isalpha_def isdigit_def Let_def)

lemma lexer_body_letter:
  assumes "is_letter (source_code ! position)"
  shows "lexer_body source_code position tokens =
     (let lexeme = takeWhile (\<lambda>c. isalnum c \<or> c = CHR ''_'') (drop position source_code)
      in Inr (position + length lexeme,
              tokens @ [(if lexeme \<in> set keywords_tbl then ''keyword'' else ''identifier'', lexeme)]))"
  using assms char_classes(1,4) [of "source_code ! position"]
  by (simp add: lexer_body_def is_letter_def get_identifier_takeWhile Let_def)

lemma get_number_closed:
  "get_number source_code position =
     (let ds = takeWhile isdigit (drop position source_code);
          p1 = position + length ds
      in if p1 < length source_code \<and> source_code ! p1 = CHR ''.''
         then (ds @ ''.'' @ takeWhile isdigit (drop (p1 + 1) source_code), True)
         else (ds, False))"
  by (simp add: get_number_def get_number_loop_takeWhile Let_def)

lemma lexer_body_digit:
  assumes "is_digit (source_code ! position)"
  shows "lexer_body source_code position tokens =
     (case get_number source_code position of (lexeme, is_real) \<Rightarrow>
        Inr (position + length lexeme,
             tokens @ [(if is_real then ''real'' else ''integer'', lexeme)]))"
  using assms char_classes(2,3,5) [of "source_code ! position"]
  by (simp add: lexer_body_def is_letter_def is_digit_def Let_def split: prod.splits)

lemma minus_char:
  assumes "position < length source_code" "source_code ! position = CHR ''-''"
  shows "get_operator source_code position = Inr ''-''"
proof -
  have d: "drop position source_code = CHR ''-'' # drop (Suc position) source_code"
    using assms by (simp add: Cons_nth_drop_Suc [symmetric])
  show ?thesis
    using assms unfolding get_operator_def slice_def operators_def
    by (cases "drop (Suc position) source_code") (auto simp add: d)
qed

lemma get_number_lexeme_chars:
  "set (fst (get_number source_code position)) \<subseteq> {c. isdigit c} \<union> {CHR ''.''}"
  unfolding get_number_def
  by (auto simp add: get_number_loop_takeWhile dest: set_takeWhileD)

lemma takeWhile_is_slice:
  "takeWhile P (drop position source_code)
     = slice source_code position (position + length (takeWhile P (drop position source_code)))"
  by (simp add: slice_def takeWhile_eq_take [symmetric])

lemma get_number_is_slice:
  "fst (get_number source_code position)
     = slice source_code position (position + length (fst (get_number source_code position)))"
proof -
  define ds where "ds = takeWhile isdigit (drop position source_code)"
  define p1 where "p1 = position + length ds"
  define fs where "fs = takeWhile isdigit (drop (p1 + 1) source_code)"
  have split1: "drop position source_code = ds @ drop p1 source_code"
  proof -
    have "drop position source_code
        = take (length ds) (drop position source_code) @ drop (length ds) (drop position source_code)"
      by (simp only: append_take_drop_id)
    also have "take (length ds) (drop position source_code) = ds"
      unfolding ds_def by (simp add: takeWhile_eq_take [symmetric])
    also have "drop (length ds) (drop position source_code) = drop p1 source_code"
      by (simp add: p1_def add.commute)
    finally show ?thesis .
  qed
  show ?thesis
  proof (cases "p1 < length source_code \<and> source_code ! p1 = CHR ''.''")
    case True
    then have "drop p1 source_code = CHR ''.'' # drop (p1 + 1) source_code"
      by (simp add: Cons_nth_drop_Suc [symmetric])
    then have whole: "drop position source_code = (ds @ ''.'') @ drop (p1 + 1) source_code"
      using split1 by simp
    have fs_take: "take (length fs) (drop (p1 + 1) source_code) = fs"
      unfolding fs_def by (simp add: takeWhile_eq_take [symmetric])
    have lex: "fst (get_number source_code position) = ds @ ''.'' @ fs"
      using True by (simp add: get_number_closed Let_def ds_def p1_def fs_def)
    have "take (length (ds @ ''.'' @ fs)) (drop position source_code) = ds @ ''.'' @ fs"
      unfolding whole using fs_take by simp
    then show ?thesis
      unfolding lex by (simp add: slice_def)
  next
    case False
    then have lex: "fst (get_number source_code position) = ds"
      by (auto simp add: get_number_closed Let_def ds_def p1_def)
    show ?thesis
      unfolding lex unfolding ds_def by (rule takeWhile_is_slice)
  qed
qed

lemma lexer_loop_step:
  assumes "position < length source_code"
    and "lexer_body source_code position tokens = Inr (position', tokens')"
  shows "lexer_loop source_code position tokens = lexer_loop source_code position' tokens'"
  using assms by (subst lexer_loop.simps) simp

subsection \<open>What one iteration of the loop does\<close>

text \<open>
  C5. Where the slice of two characters at the position is an entry of \<^verbatim>\<open>operators\<close>
  (its first character is then the first character of an operator), the iteration emits
  that slice as one operator token and moves the position past it; none of the earlier
  tests of the loop takes such a character. The scan of \<^verbatim>\<open><=\<close> returns the one token
  \<^verbatim>\<open>("operator", "<=")\<close>.
\<close>

theorem operator_longest_match:
  assumes h: "slice source_code position (position + 2) \<in> set operators"
  shows "lexer_body source_code position tokens =
           Inr (position + length (slice source_code position (position + 2)),
                tokens @ [(''operator'', slice source_code position (position + 2))])
         \<and> lexer ''<='' = Some (Inr [(''operator'', ''<='')])"
proof
  obtain c cs where sl: "slice source_code position (position + 2) = c # cs"
  proof -
    have "[] \<notin> set operators"
      by (simp add: operators_def)
    with h have "slice source_code position (position + 2) \<noteq> []"
      by metis
    then show ?thesis
      using that by (meson neq_Nil_conv)
  qed
  have c_in: "c \<in> {CHR ''+'', CHR ''-'', CHR ''*'', CHR ''/'', CHR ''='', CHR ''<'', CHR ''>'', CHR ''!''}"
    using h unfolding sl by (auto simp add: operators_def)
  have "take (Suc 1) (drop position source_code) = c # cs"
    using sl by (simp add: slice_def numeral_2_eq_2)
  then have pos: "position < length source_code \<and> source_code ! position = c"
    by (rule nth_of_take_drop)
  have go: "get_operator source_code position = Inr (c # cs)"
    using h sl by (simp add: get_operator_def)
  have cls: "\<not> isspace c" "c \<noteq> CHR ''[''" "\<not> is_letter c" "\<not> is_digit c"
    "list_ex (\<lambda>op. c = op ! 0) operators"
    using c_in by (auto simp add: isspace_def is_letter_def isalpha_def is_digit_def isdigit_def
        operators_def slice_def)
  show "lexer_body source_code position tokens =
           Inr (position + length (slice source_code position (position + 2)),
                tokens @ [(''operator'', slice source_code position (position + 2))])"
    unfolding sl using pos cls go by (simp add: lexer_body_def)
  show "lexer ''<='' = Some (Inr [(''operator'', ''<='')])"
    by code_simp
qed

theorem operator_longest_match_witness:
  "slice ''a>=b'' 1 (1 + 2) \<in> set operators
   \<and> lexer_body ''a>=b'' 1 [(''identifier'', ''a'')]
       = Inr (3, [(''identifier'', ''a''), (''operator'', ''>='')])"
proof -
  have h: "slice ''a>=b'' 1 (1 + 2) \<in> set operators"
    by (simp add: slice_def operators_def)
  have s: "slice ''a>=b'' 1 (1 + 2) = ''>=''"
    by (simp add: slice_def)
  show ?thesis
    using h operator_longest_match [OF h, of "[(''identifier'', ''a'')]"] unfolding s by simp
qed

text \<open>
  C6. Where the character at the position is a letter, the lexeme is the longest run of
  alphanumeric characters and underscores from there; it is not empty, and its token is
  a keyword exactly when the lexeme is one of the eight reserved words, compared as they
  are written, and an identifier otherwise. The scan of \<^verbatim>\<open>integer\<close> returns one
  keyword, the scan of \<^verbatim>\<open>integerX\<close> one identifier.
\<close>

theorem keyword_or_identifier:
  assumes "position < length source_code" and "is_letter (source_code ! position)"
  shows "(let lexeme = takeWhile (\<lambda>c. isalnum c \<or> c = CHR ''_'') (drop position source_code)
          in lexeme \<noteq> ''''
             \<and> lexer_body source_code position tokens =
                 Inr (position + length lexeme,
                      tokens @ [(if lexeme \<in> {''integer'', ''if'', ''else'', ''fi'', ''while'',
                                                 ''return'', ''get'', ''put''}
                                 then ''keyword'' else ''identifier'', lexeme)]))
         \<and> lexer ''integer'' = Some (Inr [(''keyword'', ''integer'')])
         \<and> lexer ''integerX'' = Some (Inr [(''identifier'', ''integerX'')])"
proof (intro conjI)
  have d: "drop position source_code = source_code ! position # drop (Suc position) source_code"
    using assms(1) by (simp add: Cons_nth_drop_Suc)
  have "isalnum (source_code ! position)"
    using assms(2) by (simp add: is_letter_def isalnum_def)
  then have ne: "takeWhile (\<lambda>c. isalnum c \<or> c = CHR ''_'') (drop position source_code) \<noteq> ''''"
    by (simp add: d)
  have kw: "set keywords_tbl = {''integer'', ''if'', ''else'', ''fi'', ''while'', ''return'', ''get'', ''put''}"
    by (simp add: keywords_tbl_def)
  show "let lexeme = takeWhile (\<lambda>c. isalnum c \<or> c = CHR ''_'') (drop position source_code)
          in lexeme \<noteq> ''''
             \<and> lexer_body source_code position tokens =
                 Inr (position + length lexeme,
                      tokens @ [(if lexeme \<in> {''integer'', ''if'', ''else'', ''fi'', ''while'',
                                                 ''return'', ''get'', ''put''}
                                 then ''keyword'' else ''identifier'', lexeme)])"
    using ne lexer_body_letter [OF assms(2), of tokens] unfolding kw Let_def by simp
  show "lexer ''integer'' = Some (Inr [(''keyword'', ''integer'')])"
    by code_simp
  show "lexer ''integerX'' = Some (Inr [(''identifier'', ''integerX'')])"
    by code_simp
qed

theorem keyword_or_identifier_witness:
  "(2::nat) < length ''x Integer_1 while'' \<and> is_letter (''x Integer_1 while'' ! 2)
   \<and> lexer_body ''x Integer_1 while'' 2 [(''identifier'', ''x'')]
       = Inr (11, [(''identifier'', ''x''), (''identifier'', ''Integer_1'')])
   \<and> (12::nat) < length ''x Integer_1 while'' \<and> is_letter (''x Integer_1 while'' ! 12)
   \<and> lexer_body ''x Integer_1 while'' 12 [] = Inr (17, [(''keyword'', ''while'')])"
proof -
  have h1: "(2::nat) < length ''x Integer_1 while''" by simp
  have h2: "is_letter (''x Integer_1 while'' ! 2)" by (simp add: is_letter_def isalpha_def)
  have h3: "(12::nat) < length ''x Integer_1 while''" by simp
  have h4: "is_letter (''x Integer_1 while'' ! 12)" by (simp add: is_letter_def isalpha_def)
  have t1: "takeWhile (\<lambda>c. isalnum c \<or> c = CHR ''_'') (drop 2 ''x Integer_1 while'') = ''Integer_1''"
    by (simp add: isalnum_def isalpha_def isdigit_def)
  have t2: "takeWhile (\<lambda>c. isalnum c \<or> c = CHR ''_'') (drop 12 ''x Integer_1 while'') = ''while''"
    by (simp add: isalnum_def isalpha_def isdigit_def)
  show ?thesis
    using h1 h2 h3 h4
      keyword_or_identifier [OF h1 h2, of "[(''identifier'', ''x'')]"]
      keyword_or_identifier [OF h3 h4, of "[]"]
    unfolding t1 t2 Let_def by simp
qed

text \<open>
  C7. Where the character at the position is a digit, the iteration reads the longest
  run of digits; if a point follows, it reads the point and the digits after it, none
  included, and the token is a real; otherwise the token is an integer. The lexeme is
  the slice of the text that was read. The scans of \<^verbatim>\<open>123\<close>, \<^verbatim>\<open>123.45\<close> and
  \<^verbatim>\<open>123.\<close> return an integer, a real and a real.
\<close>

theorem integer_or_real:
  assumes "is_digit (source_code ! position)"
  shows "(let ds = takeWhile isdigit (drop position source_code);
              p1 = position + length ds;
              point = (p1 < length source_code \<and> source_code ! p1 = CHR ''.'');
              lexeme = (if point then ds @ ''.'' @ takeWhile isdigit (drop (p1 + 1) source_code) else ds)
          in lexer_body source_code position tokens =
               Inr (position + length lexeme,
                    tokens @ [(if point then ''real'' else ''integer'', lexeme)])
             \<and> lexeme = slice source_code position (position + length lexeme))
         \<and> lexer ''123'' = Some (Inr [(''integer'', ''123'')])
         \<and> lexer ''123.45'' = Some (Inr [(''real'', ''123.45'')])
         \<and> lexer ''123.'' = Some (Inr [(''real'', ''123.'')])"
proof (intro conjI)
  show "let ds = takeWhile isdigit (drop position source_code);
              p1 = position + length ds;
              point = (p1 < length source_code \<and> source_code ! p1 = CHR ''.'');
              lexeme = (if point then ds @ ''.'' @ takeWhile isdigit (drop (p1 + 1) source_code) else ds)
          in lexer_body source_code position tokens =
               Inr (position + length lexeme,
                    tokens @ [(if point then ''real'' else ''integer'', lexeme)])
             \<and> lexeme = slice source_code position (position + length lexeme)"
  proof -
    define ds where "ds = takeWhile isdigit (drop position source_code)"
    define p1 where "p1 = position + length ds"
    define point where "point = (p1 < length source_code \<and> source_code ! p1 = CHR ''.'')"
    define lexeme where
      "lexeme = (if point then ds @ ''.'' @ takeWhile isdigit (drop (p1 + 1) source_code) else ds)"
    have gn: "get_number source_code position = (lexeme, point)"
      by (simp add: get_number_closed Let_def lexeme_def point_def p1_def ds_def)
    have body: "lexer_body source_code position tokens =
        Inr (position + length lexeme, tokens @ [(if point then ''real'' else ''integer'', lexeme)])"
      by (simp add: lexer_body_digit [OF assms] gn)
    have sl: "lexeme = slice source_code position (position + length lexeme)"
      using get_number_is_slice [of source_code position] by (simp add: gn)
    from body sl show ?thesis
      unfolding Let_def lexeme_def point_def p1_def ds_def by (rule conjI)
  qed
  show "lexer ''123'' = Some (Inr [(''integer'', ''123'')])"
    by code_simp
  show "lexer ''123.45'' = Some (Inr [(''real'', ''123.45'')])"
    by code_simp
  show "lexer ''123.'' = Some (Inr [(''real'', ''123.'')])"
    by code_simp
qed

theorem integer_or_real_witness:
  "is_digit (''x=3.14;'' ! 2)
   \<and> lexer_body ''x=3.14;'' 2 [] = Inr (6, [(''real'', ''3.14'')])
   \<and> ''3.14'' = slice ''x=3.14;'' 2 6
   \<and> is_digit (''x=42;'' ! 2)
   \<and> lexer_body ''x=42;'' 2 [] = Inr (4, [(''integer'', ''42'')])"
proof -
  have h1: "is_digit (''x=3.14;'' ! 2)" by (simp add: is_digit_def isdigit_def)
  have h2: "is_digit (''x=42;'' ! 2)" by (simp add: is_digit_def isdigit_def)
  have d: "isdigit (CHR ''3'')" "isdigit (CHR ''1'')" "isdigit (CHR ''4'')" "isdigit (CHR ''2'')"
    "\<not> isdigit (CHR ''.'')" "\<not> isdigit (CHR '';'')"
    by (simp_all add: isdigit_def)
  show ?thesis
    using h1 h2 integer_or_real [OF h1, of "[]"] integer_or_real [OF h2, of "[]"]
    by (simp add: Let_def d slice_def)
qed

text \<open>
  C8. No iteration of the loop moves the position back: whenever an iteration goes on to
  a next one, the new position is at least the old one.
\<close>

theorem lexer_body_position_mono:
  "lexer_body source_code position tokens = Inr (position', tokens') \<Longrightarrow> position \<le> position'"
  unfolding lexer_body_def Let_def
  by (auto split: if_splits sum.splits prod.splits dest: handle_comment_advances)

theorem lexer_body_position_mono_witness:
  "lexer_body ''a [* c *] <= 1'' 2 [(''identifier'', ''a'')] = Inr (9, [(''identifier'', ''a'')])
   \<and> (2::nat) \<le> 9"
proof -
  have h: "lexer_body ''a [* c *] <= 1'' 2 [(''identifier'', ''a'')] = Inr (9, [(''identifier'', ''a'')])"
    by code_simp
  show ?thesis
    using h lexer_body_position_mono [OF h] by simp
qed

text \<open>
  C9. A minus sign at the position is emitted as the operator token \<^verbatim>\<open>-\<close> alone,
  whatever follows it, and the position moves by one; no lexeme of \<^verbatim>\<open>get_number\<close>
  contains a minus sign. The scan of \<^verbatim>\<open>-5\<close> returns the operator and the integer.
\<close>

theorem minus_is_operator:
  assumes "position < length source_code" and "source_code ! position = CHR ''-''"
  shows "lexer_body source_code position tokens
           = Inr (position + 1, tokens @ [(''operator'', ''-'')])
         \<and> CHR ''-'' \<notin> set (fst (get_number source_code position'))
         \<and> lexer ''-5'' = Some (Inr [(''operator'', ''-''), (''integer'', ''5'')])"
proof (intro conjI)
  show "lexer_body source_code position tokens
      = Inr (position + 1, tokens @ [(''operator'', ''-'')])"
    using assms
    by (simp add: lexer_body_def minus_char isspace_def is_letter_def is_digit_def
        isalpha_def isdigit_def operators_def slice_def)
  show "CHR ''-'' \<notin> set (fst (get_number source_code position'))"
    using get_number_lexeme_chars [of source_code position']
    by (auto simp add: isdigit_def)
  show "lexer ''-5'' = Some (Inr [(''operator'', ''-''), (''integer'', ''5'')])"
    by code_simp
qed

theorem minus_is_operator_witness:
  "(2::nat) < length ''x=-5;'' \<and> ''x=-5;'' ! 2 = CHR ''-''
   \<and> lexer_body ''x=-5;'' 2 [] = Inr (3, [(''operator'', ''-'')])
   \<and> CHR ''-'' \<notin> set (fst (get_number ''x=-5;'' 3))"
proof -
  have h1: "(2::nat) < length ''x=-5;''" by simp
  have h2: "''x=-5;'' ! 2 = CHR ''-''" by simp
  show ?thesis
    using h1 h2 minus_is_operator [OF h1 h2, of "[]" 3] by simp
qed

text \<open>
  C10. Where the text at the position is a non-empty run of digits followed by a letter,
  one iteration emits the run as an integer token and the next one emits the name that
  starts at the letter, as a keyword or an identifier: two adjacent tokens, and the scan
  goes on after them. The scan of \<^verbatim>\<open>123abc\<close> returns the integer and the identifier.
\<close>

theorem digits_then_letter:
  assumes run: "drop position source_code = ds @ c # rest"
    and ne: "ds \<noteq> ''''"
    and digits: "list_all is_digit ds"
    and letter: "is_letter c"
  shows "(let name = takeWhile (\<lambda>c. isalnum c \<or> c = CHR ''_'') (c # rest);
              tokens1 = tokens @ [(''integer'', ds)];
              tokens2 = tokens1 @ [(if name \<in> set keywords_tbl then ''keyword'' else ''identifier'', name)]
          in lexer_body source_code position tokens = Inr (position + length ds, tokens1)
             \<and> lexer_body source_code (position + length ds) tokens1
                 = Inr (position + length ds + length name, tokens2)
             \<and> hd name = c
             \<and> lexer_loop source_code position tokens
                 = lexer_loop source_code (position + length ds + length name) tokens2)
         \<and> lexer ''123abc'' = Some (Inr [(''integer'', ''123''), (''identifier'', ''abc'')])"
proof (rule conjI)
  define name where "name = takeWhile (\<lambda>c. isalnum c \<or> c = CHR ''_'') (c # rest)"
  define tokens1 where "tokens1 = tokens @ [(''integer'', ds)]"
  define tokens2 where
    "tokens2 = tokens1 @ [(if name \<in> set keywords_tbl then ''keyword'' else ''identifier'', name)]"
  define p1 where "p1 = position + length ds"
  have c_cls: "\<not> isdigit c" "c \<noteq> CHR ''.''" "isalnum c"
    using letter char_classes(3,6) [of c] by (auto simp add: is_letter_def isalnum_def)
  have all_digits: "\<And>d. d \<in> set ds \<Longrightarrow> isdigit d"
    using digits by (simp add: list_all_iff is_digit_def)
  have lt: "position < length source_code"
    using run by (cases "position < length source_code") auto
  have first: "source_code ! position = hd ds"
    using run ne by (cases ds) (auto dest: nth_via_drop)
  have first_digit: "is_digit (source_code ! position)"
    using first ne all_digits by (cases ds) (auto simp add: is_digit_def)
  have tw: "takeWhile isdigit (drop position source_code) = ds"
    unfolding run using all_digits c_cls(1) by simp
  have "drop (length ds) (drop position source_code) = c # rest"
    unfolding run by simp
  then have at_p1: "drop p1 source_code = c # rest"
    by (simp add: p1_def add.commute)
  then have p1_lt: "p1 < length source_code"
    by (cases "p1 < length source_code") auto
  have p1_c: "source_code ! p1 = c"
    using at_p1 by (rule nth_via_drop)
  have gn: "get_number source_code position = (ds, False)"
    using p1_c c_cls(2) by (simp add: get_number_closed Let_def tw p1_def [symmetric])
  have step1: "lexer_body source_code position tokens = Inr (p1, tokens1)"
    by (simp add: lexer_body_digit [OF first_digit] gn p1_def tokens1_def)
  have "is_letter (source_code ! p1)"
    using letter p1_c by simp
  then have step2: "lexer_body source_code p1 tokens1 = Inr (p1 + length name, tokens2)"
    unfolding tokens2_def name_def at_p1 [symmetric] by (simp only: lexer_body_letter Let_def)
  have hd_name: "hd name = c"
    using c_cls(3) by (simp add: name_def)
  have loop: "lexer_loop source_code position tokens
      = lexer_loop source_code (p1 + length name) tokens2"
    using lexer_loop_step [OF lt step1] lexer_loop_step [OF p1_lt step2] by simp
  from step1 step2 hd_name loop
  show "let name = takeWhile (\<lambda>c. isalnum c \<or> c = CHR ''_'') (c # rest);
              tokens1 = tokens @ [(''integer'', ds)];
              tokens2 = tokens1 @ [(if name \<in> set keywords_tbl then ''keyword'' else ''identifier'', name)]
          in lexer_body source_code position tokens = Inr (position + length ds, tokens1)
             \<and> lexer_body source_code (position + length ds) tokens1
                 = Inr (position + length ds + length name, tokens2)
             \<and> hd name = c
             \<and> lexer_loop source_code position tokens
                 = lexer_loop source_code (position + length ds + length name) tokens2"
    unfolding Let_def tokens2_def tokens1_def name_def p1_def by blast
next
  show "lexer ''123abc'' = Some (Inr [(''integer'', ''123''), (''identifier'', ''abc'')])"
    by code_simp
qed

theorem digits_then_letter_witness:
  "drop 2 ''x=42if;'' = ''42'' @ CHR ''i'' # ''f;'' \<and> ''42'' \<noteq> '''' \<and> list_all is_digit ''42''
   \<and> is_letter (CHR ''i'')
   \<and> lexer_body ''x=42if;'' 2 [] = Inr (4, [(''integer'', ''42'')])
   \<and> lexer_body ''x=42if;'' 4 [(''integer'', ''42'')]
       = Inr (6, [(''integer'', ''42''), (''keyword'', ''if'')])"
proof -
  have h1: "drop 2 ''x=42if;'' = ''42'' @ CHR ''i'' # ''f;''" by simp
  have h2: "''42'' \<noteq> ''''" by simp
  have h3: "list_all is_digit ''42''" by (simp add: is_digit_def isdigit_def)
  have h4: "is_letter (CHR ''i'')" by (simp add: is_letter_def isalpha_def)
  have nm: "takeWhile (\<lambda>c. isalnum c \<or> c = CHR ''_'') (CHR ''i'' # ''f;'') = ''if''"
    by (simp add: isalnum_def isalpha_def isdigit_def)
  show ?thesis
    using h1 h2 h3 h4 digits_then_letter [OF h1 h2 h3 h4, of "[]"]
    unfolding nm Let_def by (simp add: keywords_tbl_def)
qed

subsection \<open>What the scan guarantees where it ends\<close>

text \<open>
  The facts of this part are about the scans that end. An iteration only appends to the
  token list, and what it appends is the slice it moved over, without its whitespace. So
  a scan that returns, on a text without the opening marker of a comment, returns the
  text without its whitespace, cut into lexemes; none of its lexemes is empty; the only
  exceptions are the two of the model; and a scan all of whose iterations advance ends.
\<close>

lemma lexer_body_appends:
  "lexer_body source_code position tokens =
     (case lexer_body source_code position [] of
        Inl e \<Rightarrow> Inl e
      | Inr (position', new) \<Rightarrow> Inr (position', tokens @ new))"
  unfolding lexer_body_def Let_def
  by (simp split: sum.splits prod.splits)

lemma slice_same: "slice s i i = []"
  by (simp add: slice_def)

lemma slice_self:
  "lexeme = slice source_code position (position + length lexeme)
     \<Longrightarrow> position \<le> length source_code \<Longrightarrow> position + length lexeme \<le> length source_code"
proof -
  assume h: "lexeme = slice source_code position (position + length lexeme)"
    and le: "position \<le> length source_code"
  have "length lexeme = length (slice source_code position (position + length lexeme))"
    using h by simp
  then have "length lexeme = min (length source_code - position) (length lexeme)"
    by (simp add: slice_def min.commute)
  then show ?thesis using le by linarith
qed

lemma get_operator_cases:
  assumes "position < length source_code" and "\<not> isspace (source_code ! position)"
    and "get_operator source_code position = Inr lexeme"
  shows "lexeme = slice source_code position (position + length lexeme)
         \<and> (\<forall>c \<in> set lexeme. \<not> isspace c)"
proof (cases "slice source_code position (position + 2) \<in> set operators")
  case True
  then have lex: "lexeme = slice source_code position (position + 2)"
    using assms(3) by (simp add: get_operator_def)
  have "length lexeme \<le> 2"
    unfolding lex by (simp add: slice_def)
  have a: "slice source_code position (position + length lexeme) = lexeme"
    unfolding lex slice_def by (simp add: min_def)
  have "\<forall>c \<in> set lexeme. \<not> isspace c"
    using True unfolding lex [symmetric] by (auto simp add: operators_def isspace_def)
  with a show ?thesis by simp
next
  case False
  have d: "drop position source_code = source_code ! position # drop (Suc position) source_code"
    using assms(1) by (simp add: Cons_nth_drop_Suc)
  have one: "slice source_code position (Suc position) = [source_code ! position]"
    by (simp add: slice_def d)
  have none: "slice source_code position position = []"
    by (simp add: slice_def)
  from False assms show ?thesis
    by (auto simp add: get_operator_def one none split: if_splits)
qed

lemma lexer_body_consumes:
  assumes lt: "position < length source_code"
    and body: "lexer_body source_code position tokens = Inr (position', tokens')"
    and no_comment: "position + 1 < length source_code
      \<Longrightarrow> \<not> (source_code ! position = CHR ''['' \<and> source_code ! (position + 1) = CHR ''*'')"
  shows "position \<le> position' \<and> position' \<le> length source_code \<and>
         concat (map snd tokens') =
           concat (map snd tokens) @ filter (\<lambda>c. \<not> isspace c) (slice source_code position position')"
proof -
  define char where "char = source_code ! position"
  have d: "drop position source_code = char # drop (Suc position) source_code"
    using lt by (simp add: Cons_nth_drop_Suc char_def)
  have one: "slice source_code position (Suc position) = [char]"
    by (simp add: slice_def d)
  have lexeme_case: "position \<le> position + length lexeme \<and> position + length lexeme \<le> length source_code \<and>
         concat (map snd (tokens @ [(tag, lexeme)])) =
           concat (map snd tokens) @ filter (\<lambda>c. \<not> isspace c) (slice source_code position (position + length lexeme))"
    if "lexeme = slice source_code position (position + length lexeme)" "\<forall>c \<in> set lexeme. \<not> isspace c"
    for lexeme tag
  proof -
    have "position + length lexeme \<le> length source_code"
      using that(1) lt by (intro slice_self) simp_all
    moreover have "filter (\<lambda>c. \<not> isspace c) lexeme = lexeme"
      using that(2) by (simp add: filter_id_conv)
    ultimately show ?thesis
      using that(1) by simp
  qed
  consider (space) "isspace char"
    | (letter) "\<not> isspace char" "is_letter char"
    | (digit) "\<not> isspace char" "\<not> is_letter char" "is_digit char"
    | (other) "\<not> isspace char" "\<not> is_letter char" "\<not> is_digit char"
    by blast
  then show ?thesis
  proof cases
    case space
    then show ?thesis
      using body lt by (auto simp add: lexer_body_def char_def [symmetric] one)
  next
    case letter
    define lexeme where "lexeme = takeWhile (\<lambda>c. isalnum c \<or> c = CHR ''_'') (drop position source_code)"
    have b: "lexer_body source_code position tokens = Inr (position + length lexeme,
        tokens @ [(if lexeme \<in> set keywords_tbl then ''keyword'' else ''identifier'', lexeme)])"
      using letter by (simp add: lexer_body_letter char_def Let_def lexeme_def)
    have ns: "\<forall>c \<in> set lexeme. \<not> isspace c"
      unfolding lexeme_def
      by (auto dest!: set_takeWhileD simp add: isalnum_def isspace_def isalpha_def isdigit_def Let_def)
    have sl: "lexeme = slice source_code position (position + length lexeme)"
      unfolding lexeme_def by (rule takeWhile_is_slice)
    from body b have p': "position' = position + length lexeme"
      and t': "tokens' = tokens @ [(if lexeme \<in> set keywords_tbl then ''keyword'' else ''identifier'', lexeme)]"
      by simp_all
    show ?thesis
      unfolding p' t' using sl ns by (rule lexeme_case)
  next
    case digit
    obtain lexeme is_real where gn: "get_number source_code position = (lexeme, is_real)"
      by (cases "get_number source_code position")
    have b: "lexer_body source_code position tokens = Inr (position + length lexeme,
        tokens @ [(if is_real then ''real'' else ''integer'', lexeme)])"
      using digit by (simp add: lexer_body_digit char_def gn)
    have ns: "\<forall>c \<in> set lexeme. \<not> isspace c"
      using get_number_lexeme_chars [of source_code position] gn
      by (auto simp add: isspace_def isdigit_def Let_def)
    have sl: "lexeme = slice source_code position (position + length lexeme)"
      using get_number_is_slice [of source_code position] gn by simp
    from body b have p': "position' = position + length lexeme"
      and t': "tokens' = tokens @ [(if is_real then ''real'' else ''integer'', lexeme)]"
      by simp_all
    show ?thesis
      unfolding p' t' using sl ns by (rule lexeme_case)
  next
    case other
    have nc: "position + 1 < length source_code
        \<Longrightarrow> \<not> (char = CHR ''['' \<and> source_code ! (position + 1) = CHR ''*'')"
      using no_comment by (simp add: char_def)
    show ?thesis
    proof (cases "list_ex (\<lambda>op. char = op ! 0) operators")
      case True
      then obtain lexeme where go: "get_operator source_code position = Inr lexeme"
        and p': "position' = position + length lexeme" and t': "tokens' = tokens @ [(''operator'', lexeme)]"
        using body other nc
        by (auto simp add: lexer_body_def char_def [symmetric] Let_def split: if_splits sum.splits)
      have "lexeme = slice source_code position (position + length lexeme)
         \<and> (\<forall>c \<in> set lexeme. \<not> isspace c)"
        using lt other(1) go unfolding char_def by (rule get_operator_cases)
      then show ?thesis
        unfolding p' t' using lexeme_case by blast
    next
      case False
      then show ?thesis
        using body other nc lt
        by (auto simp add: lexer_body_def char_def [symmetric] Let_def one slice_same split: if_splits)
    qed
  qed
qed

lemma lexer_loop_content:
  assumes run: "lexer_loop source_code position tokens = Some (Inr result)"
    and le: "position \<le> length source_code"
    and no_comment: "\<And>i. i + 1 < length source_code
      \<Longrightarrow> \<not> (source_code ! i = CHR ''['' \<and> source_code ! (i + 1) = CHR ''*'')"
  shows "concat (map snd result) =
           concat (map snd tokens) @ filter (\<lambda>c. \<not> isspace c) (drop position source_code)"
proof -
  have "source_code = source_code \<longrightarrow> position \<le> length source_code \<longrightarrow>
      (\<forall>r. (Inr result :: error + token list) = Inr r \<longrightarrow> concat (map snd r) =
          concat (map snd tokens) @ filter (\<lambda>c. \<not> isspace c) (drop position source_code))"
  proof (rule lexer_loop.raw_induct
      [where P = "\<lambda>s p t y. s = source_code \<longrightarrow> p \<le> length source_code \<longrightarrow>
        (\<forall>r. y = Inr r \<longrightarrow> concat (map snd r) =
          concat (map snd t) @ filter (\<lambda>c. \<not> isspace c) (drop p source_code))", OF _ run])
    fix f s p t y
    assume IH: "\<And>s' p' t' y'. f s' p' t' = Some y' \<Longrightarrow>
        s' = source_code \<longrightarrow> p' \<le> length source_code \<longrightarrow>
        (\<forall>r. y' = Inr r \<longrightarrow> concat (map snd r) =
          concat (map snd t') @ filter (\<lambda>c. \<not> isspace c) (drop p' source_code))"
      and unfolded: "(if p < length s
           then case lexer_body s p t of
                  Inl e \<Rightarrow> Some (Inl e)
                | Inr (position', tokens') \<Rightarrow> f s position' tokens'
           else Some (Inr t)) = Some y"
    show "s = source_code \<longrightarrow> p \<le> length source_code \<longrightarrow>
        (\<forall>r. y = Inr r \<longrightarrow> concat (map snd r) =
          concat (map snd t) @ filter (\<lambda>c. \<not> isspace c) (drop p source_code))"
    proof (intro impI allI)
      fix r
      assume s: "s = source_code" and p: "p \<le> length source_code" and y: "y = Inr r"
      show "concat (map snd r) =
          concat (map snd t) @ filter (\<lambda>c. \<not> isspace c) (drop p source_code)"
      proof (cases "p < length source_code")
        case False
        with unfolded s y p show ?thesis by simp
      next
        case True
        with unfolded s y obtain p' t' where body: "lexer_body source_code p t = Inr (p', t')"
          and next_run: "f source_code p' t' = Some (Inr r)"
          by (auto split: sum.splits)
        have step: "p \<le> p' \<and> p' \<le> length source_code \<and>
            concat (map snd t') =
              concat (map snd t) @ filter (\<lambda>c. \<not> isspace c) (slice source_code p p')"
          using True body no_comment by (rule lexer_body_consumes)
        have "drop p source_code = slice source_code p p' @ drop p' source_code"
        proof -
          have "drop p source_code
              = take (p' - p) (drop p source_code) @ drop (p' - p) (drop p source_code)"
            by (simp only: append_take_drop_id)
          then show ?thesis
            using step by (simp add: slice_def)
        qed
        then show ?thesis
          using IH [OF next_run] step by simp
      qed
    qed
  qed
  then show ?thesis
    using le by simp
qed

lemma lexer_content:
  assumes "lexer source_code = Some (Inr result)"
    and "\<And>i. i + 1 < length source_code
      \<Longrightarrow> \<not> (source_code ! i = CHR ''['' \<and> source_code ! (i + 1) = CHR ''*'')"
  shows "concat (map snd result) = filter (\<lambda>c. \<not> isspace c) source_code"
  using lexer_loop_content [of source_code 0 "[]" result] assms
  by (simp add: lexer_def)

lemma lexer_body_new_token:
  "lexer_body s p t = Inr (p', t')
     \<Longrightarrow> t' = t \<or> (\<exists>tag lexeme. t' = t @ [(tag, lexeme)] \<and> p' = p + length lexeme)"
  unfolding lexer_body_def Let_def
  by (auto split: if_splits sum.splits prod.splits)

lemma lexer_body_stuck_any:
  assumes "lexer_body s p t = Inr (p, t')"
  shows "\<exists>t0'. lexer_body s p t0 = Inr (p, t0')"
  using assms lexer_body_appends [of s p t] lexer_body_appends [of s p t0]
  by (auto split: sum.splits prod.splits)

lemma lexer_body_errors:
  "lexer_body s p t = Inl e
     \<Longrightarrow> e = IndexError \<or> e = ValueError ''Unterminated comment block''"
  unfolding lexer_body_def Let_def get_operator_def handle_comment_def
  by (auto split: if_splits sum.splits prod.splits option.splits)

lemma lexer_loop_nonempty:
  assumes run: "lexer_loop source_code position tokens = Some (Inr result)"
    and start: "\<forall>tok \<in> set tokens. snd tok \<noteq> ''''"
  shows "\<forall>tok \<in> set result. snd tok \<noteq> ''''"
proof -
  have "lexer_loop source_code position tokens = Some (Inr result) \<longrightarrow>
      (\<forall>r. (Inr result :: error + token list) = Inr r \<longrightarrow> (\<forall>tok \<in> set tokens. snd tok \<noteq> '''')
         \<longrightarrow> (\<forall>tok \<in> set r. snd tok \<noteq> ''''))"
  proof (rule lexer_loop.raw_induct
      [where P = "\<lambda>s p t y. lexer_loop s p t = Some y \<longrightarrow>
        (\<forall>r. y = Inr r \<longrightarrow> (\<forall>tok \<in> set t. snd tok \<noteq> '''')
           \<longrightarrow> (\<forall>tok \<in> set r. snd tok \<noteq> ''''))", OF _ run])
    fix f s p t y
    assume IH: "\<And>s' p' t' y'. f s' p' t' = Some y' \<Longrightarrow>
        lexer_loop s' p' t' = Some y' \<longrightarrow>
        (\<forall>r. y' = Inr r \<longrightarrow> (\<forall>tok \<in> set t'. snd tok \<noteq> '''')
           \<longrightarrow> (\<forall>tok \<in> set r. snd tok \<noteq> ''''))"
      and unfolded: "(if p < length s
           then case lexer_body s p t of
                  Inl e \<Rightarrow> Some (Inl e)
                | Inr (position', tokens') \<Rightarrow> f s position' tokens'
           else Some (Inr t)) = Some y"
    show "lexer_loop s p t = Some y \<longrightarrow>
        (\<forall>r. y = Inr r \<longrightarrow> (\<forall>tok \<in> set t. snd tok \<noteq> '''')
           \<longrightarrow> (\<forall>tok \<in> set r. snd tok \<noteq> ''''))"
    proof (intro impI allI)
      fix r
      assume whole: "lexer_loop s p t = Some y" and y: "y = Inr r"
        and t: "\<forall>tok \<in> set t. snd tok \<noteq> ''''"
      show "\<forall>tok \<in> set r. snd tok \<noteq> ''''"
      proof (cases "p < length s")
        case False
        with unfolded y t show ?thesis by simp
      next
        case True
        with unfolded y obtain p' t' where body: "lexer_body s p t = Inr (p', t')"
          and next_run: "f s p' t' = Some (Inr r)"
          by (auto split: sum.splits)
        have cont: "lexer_loop s p' t' = Some (Inr r)"
          using lexer_loop_step [OF True body] whole y by simp
        have "\<forall>tok \<in> set t'. snd tok \<noteq> ''''"
        proof (rule ccontr)
          assume "\<not> (\<forall>tok \<in> set t'. snd tok \<noteq> '''')"
          with t lexer_body_new_token [OF body] have "p' = p"
            by auto
          with body have "\<And>t0. \<exists>t0'. lexer_body s p t0 = Inr (p, t0')"
            by (simp add: lexer_body_stuck_any)
          with True have "lexer_loop s p t = None"
            by (rule lexer_loop_stuck)
          with whole show False by simp
        qed
        with IH [OF next_run] cont show ?thesis by simp
      qed
    qed
  qed
  with run start show ?thesis by simp
qed

lemma lexer_loop_errors:
  assumes run: "lexer_loop source_code position tokens = Some (Inl e)"
  shows "e = IndexError \<or> e = ValueError ''Unterminated comment block''"
proof -
  have "\<forall>e'. (Inl e :: error + token list) = Inl e'
      \<longrightarrow> e' = IndexError \<or> e' = ValueError ''Unterminated comment block''"
  proof (rule lexer_loop.raw_induct
      [where P = "\<lambda>s p t y. \<forall>e'. y = Inl e'
         \<longrightarrow> e' = IndexError \<or> e' = ValueError ''Unterminated comment block''", OF _ run])
    fix f s p t y
    assume IH: "\<And>s' p' t' y'. f s' p' t' = Some y' \<Longrightarrow>
        \<forall>e'. y' = Inl e' \<longrightarrow> e' = IndexError \<or> e' = ValueError ''Unterminated comment block''"
      and unfolded: "(if p < length s
           then case lexer_body s p t of
                  Inl e \<Rightarrow> Some (Inl e)
                | Inr (position', tokens') \<Rightarrow> f s position' tokens'
           else Some (Inr t)) = Some y"
    show "\<forall>e'. y = Inl e' \<longrightarrow> e' = IndexError \<or> e' = ValueError ''Unterminated comment block''"
    proof (intro allI impI)
      fix e'
      assume y: "y = Inl e'"
      show "e' = IndexError \<or> e' = ValueError ''Unterminated comment block''"
      proof (cases "lexer_body s p t")
        case (Inl e0)
        with unfolded y have "e0 = e'"
          by (simp split: if_splits)
        with Inl show ?thesis
          by (simp add: lexer_body_errors)
      next
        case (Inr st)
        with unfolded y have "f s (fst st) (snd st) = Some (Inl e')"
          by (simp split: if_splits prod.splits)
        from IH [OF this] show ?thesis
          by simp
      qed
    qed
  qed
  then show ?thesis by simp
qed

lemma lexer_loop_returns:
  assumes progress: "\<And>p t p' t'. p < length source_code
      \<Longrightarrow> lexer_body source_code p t = Inr (p', t') \<Longrightarrow> p < p'"
  shows "\<exists>y. lexer_loop source_code position tokens = Some y"
proof (induction "length source_code - position" arbitrary: position tokens rule: less_induct)
  case less
  show ?case
  proof (cases "position < length source_code")
    case False
    then show ?thesis
      by (subst lexer_loop.simps) simp
  next
    case True
    show ?thesis
    proof (cases "lexer_body source_code position tokens")
      case (Inl e)
      with True show ?thesis
        by (subst lexer_loop.simps) simp
    next
      case (Inr st)
      obtain p' t' where st: "st = (p', t')"
        by (cases st)
      have "position < p'"
        using progress True Inr st by blast
      then have "length source_code - p' < length source_code - position"
        using True by linarith
      then obtain y where "lexer_loop source_code p' t' = Some y"
        using less by blast
      then show ?thesis
        using lexer_loop_step [OF True Inr [unfolded st]] by simp
    qed
  qed
qed

lemma lexer_nonempty:
  assumes "lexer source_code = Some (Inr result)"
  shows "\<forall>tok \<in> set result. snd tok \<noteq> ''''"
  using lexer_loop_nonempty [of source_code 0 "[]" result] assms
  by (simp add: lexer_def)

lemma lexer_errors:
  assumes "lexer source_code = Some (Inl e)"
  shows "e = IndexError \<or> e = ValueError ''Unterminated comment block''"
  using lexer_loop_errors [of source_code 0 "[]" e] assms
  by (simp add: lexer_def)

end
